theory Spec2Isabelle
  imports Complex_Main
begin

section \<open>Tensors\<close>

text \<open>
  The notebook computes on float32 tensors. The embedding of shapes, broadcasting,
  errors and the structure of every computation uses exact real numbers for the
  entries; the one not-a-number the notebook's arithmetic can produce without
  rounding, the mean of an empty tensor, is the value \<open>None\<close> of \<open>real option\<close>.
  Where a property depends on rounding or on the float32 range, the same computation
  is given a second time on float32 values (the float32 section).
  A one-dimensional tensor is a list. A two-dimensional tensor carries its shape and
  its entries; only the entries inside the shape mean anything.
\<close>

datatype error = ShapeMismatch | EmptySequence | AttributeError

record tensor2 =
  nrows :: nat
  ncols :: nat
  cell :: "nat \<Rightarrow> nat \<Rightarrow> real"

definition and_then :: "error + 'a \<Rightarrow> ('a \<Rightarrow> error + 'b) \<Rightarrow> error + 'b" where
  "and_then r f = (case r of Inl e \<Rightarrow> Inl e | Inr x \<Rightarrow> f x)"

text \<open>\<^verbatim>\<open>v[:, None]\<close> and \<^verbatim>\<open>v[None, :]\<close>: a vector as a column and as a row.\<close>

definition col :: "real list \<Rightarrow> tensor2" where
  "col v = \<lparr>nrows = length v, ncols = 1, cell = (\<lambda>i j. v ! i)\<rparr>"

definition row :: "real list \<Rightarrow> tensor2" where
  "row v = \<lparr>nrows = 1, ncols = length v, cell = (\<lambda>i j. v ! j)\<rparr>"

text \<open>
  Broadcasting of two sizes along one dimension: equal sizes stay, a size of 1 is
  stretched to the other size, anything else is an error of the tensor library.
\<close>

definition broadcast_dim :: "nat \<Rightarrow> nat \<Rightarrow> nat option" where
  "broadcast_dim a b =
     (if a = b then Some a else if a = 1 then Some b else if b = 1 then Some a else None)"

definition pick :: "nat \<Rightarrow> nat \<Rightarrow> nat" where
  "pick d i = (if d = 1 then 0 else i)"

definition bop :: "(real \<Rightarrow> real \<Rightarrow> real) \<Rightarrow> tensor2 \<Rightarrow> tensor2 \<Rightarrow> error + tensor2" where
  "bop f a b =
     (case broadcast_dim (nrows a) (nrows b) of
        None \<Rightarrow> Inl ShapeMismatch
      | Some n \<Rightarrow>
          (case broadcast_dim (ncols a) (ncols b) of
             None \<Rightarrow> Inl ShapeMismatch
           | Some m \<Rightarrow>
               Inr \<lparr>nrows = n, ncols = m,
                    cell = (\<lambda>i j. f (cell a (pick (nrows a) i) (pick (ncols a) j))
                                   (cell b (pick (nrows b) i) (pick (ncols b) j)))\<rparr>))"

definition map_t :: "(real \<Rightarrow> real) \<Rightarrow> tensor2 \<Rightarrow> tensor2" where
  "map_t f a = \<lparr>nrows = nrows a, ncols = ncols a, cell = (\<lambda>i j. f (cell a i j))\<rparr>"

definition sigmoid :: "real \<Rightarrow> real" where
  "sigmoid x = 1 / (1 + exp (- x))"

definition softmax :: "real list \<Rightarrow> real list" where
  "softmax xs = map (\<lambda>x. exp x / sum_list (map exp xs)) xs"

definition sum_axis1 :: "tensor2 \<Rightarrow> real list" where
  "sum_axis1 t = map (\<lambda>i. sum_list (map (cell t i) [0..<ncols t])) [0..<nrows t]"

definition mean_t :: "tensor2 \<Rightarrow> real option" where
  "mean_t t =
     (if nrows t * ncols t = 0 then None
      else Some (sum_list (sum_axis1 t) / real (nrows t * ncols t)))"

definition mean_v :: "real list \<Rightarrow> real option" where
  "mean_v xs = (if xs = [] then None else Some (sum_list xs / real (length xs)))"

text \<open>Arithmetic on values that may be not-a-number.\<close>

definition nan_map :: "(real \<Rightarrow> real) \<Rightarrow> real option \<Rightarrow> real option" where
  "nan_map f a = (case a of None \<Rightarrow> None | Some x \<Rightarrow> Some (f x))"

definition nan_add :: "real option \<Rightarrow> real option \<Rightarrow> real option" where
  "nan_add a b =
     (case a of None \<Rightarrow> None
      | Some x \<Rightarrow> (case b of None \<Rightarrow> None | Some y \<Rightarrow> Some (x + y)))"

text \<open>
  \<^verbatim>\<open>argmin\<close> and \<^verbatim>\<open>argmax\<close> of an array: a scan that keeps the first index of the
  least (greatest) entry; an empty array is an error.
\<close>

fun argmin_scan :: "nat \<Rightarrow> real \<Rightarrow> nat \<Rightarrow> real list \<Rightarrow> nat" where
  "argmin_scan best v i [] = best"
| "argmin_scan best v i (y # ys) =
     (if y < v then argmin_scan i y (Suc i) ys else argmin_scan best v (Suc i) ys)"

definition argmin :: "real list \<Rightarrow> error + nat" where
  "argmin xs = (case xs of [] \<Rightarrow> Inl EmptySequence | x # rest \<Rightarrow> Inr (argmin_scan 0 x 1 rest))"

fun argmax_scan :: "nat \<Rightarrow> real \<Rightarrow> nat \<Rightarrow> real list \<Rightarrow> nat" where
  "argmax_scan best v i [] = best"
| "argmax_scan best v i (y # ys) =
     (if v < y then argmax_scan i y (Suc i) ys else argmax_scan best v (Suc i) ys)"

definition argmax :: "real list \<Rightarrow> error + nat" where
  "argmax xs = (case xs of [] \<Rightarrow> Inl EmptySequence | x # rest \<Rightarrow> Inr (argmax_scan 0 x 1 rest))"

section \<open>The response models\<close>

text \<open>
  \<^verbatim>\<open>ResponseModel\<close> holds a skill per student and a difficulty per question;
  \<^verbatim>\<open>ResponseModelWithCheater\<close> adds a logit per student. Both start at zero.
\<close>

datatype model =
    ResponseModel (skill: "real list") (difficulty: "real list")
  | ResponseModelWithCheater (skill: "real list") (difficulty: "real list") "real list"

definition ResponseModel_init :: "nat \<Rightarrow> nat \<Rightarrow> model" where
  "ResponseModel_init n_students n_questions =
     ResponseModel (replicate n_students 0) (replicate n_questions 0)"

definition ResponseModelWithCheater_init :: "nat \<Rightarrow> nat \<Rightarrow> model" where
  "ResponseModelWithCheater_init n_students n_questions =
     ResponseModelWithCheater (replicate n_students 0) (replicate n_questions 0)
       (replicate n_students 0)"

fun cheater_logits :: "model \<Rightarrow> error + real list" where
  "cheater_logits (ResponseModel sk df) = Inl AttributeError"
| "cheater_logits (ResponseModelWithCheater sk df lg) = Inr lg"

text \<open>
  \<^verbatim>\<open>forward\<close>: the matrix of probabilities handed to the Bernoulli distribution.
\<close>

fun forward :: "model \<Rightarrow> error + tensor2" where
  "forward (ResponseModel sk df) =
     and_then (bop (-) (col sk) (row df)) (\<lambda>d. Inr (map_t sigmoid d))"
| "forward (ResponseModelWithCheater sk df lg) =
     (let cheater_prob = col (softmax lg) in
      and_then (bop (-) (col sk) (row df)) (\<lambda>d.
        let answer_no_cheat = map_t sigmoid d;
            answer_cheat = map_t (\<lambda>p. 0.5 * p + 0.5 * 1) (map_t sigmoid d)
        in and_then (bop (*) cheater_prob answer_cheat) (\<lambda>a.
           and_then (bop (*) (map_t (\<lambda>c. 1 - c) cheater_prob) answer_no_cheat) (\<lambda>b.
           bop (+) a b))))"

section \<open>Fitting\<close>

text \<open>
  \<^verbatim>\<open>Bernoulli(probs=P).log_prob(answers)\<close> is computed by the tensor library, cell by
  cell, after broadcasting the probabilities against the answers. The log-probability
  \<open>lp p x\<close> of one answer \<open>x\<close> under one probability \<open>p\<close> is a parameter of the model.
\<close>

definition log_prob :: "(real \<Rightarrow> real \<Rightarrow> real) \<Rightarrow> tensor2 \<Rightarrow> tensor2 \<Rightarrow> error + tensor2" where
  "log_prob lp probs observed = bop lp probs observed"

text \<open>
  The loss of one epoch:
  \<^verbatim>\<open>-distribution.log_prob(answers).mean() + alpha*torch.pow(model.difficulty.mean(), 2)\<close>.
\<close>

definition loss :: "(real \<Rightarrow> real \<Rightarrow> real) \<Rightarrow> real \<Rightarrow> model \<Rightarrow> tensor2 \<Rightarrow> error + real option" where
  "loss lp alpha m answers =
     and_then (forward m) (\<lambda>distribution.
     and_then (log_prob lp distribution answers) (\<lambda>ll.
       Inr (nan_add (nan_map uminus (mean_t ll))
                    (nan_map (\<lambda>d. alpha * d ^ 2) (mean_v (difficulty m))))))"

text \<open>
  The optimizer belongs to the tensor library: \<open>adam m lr\<close> is its state when created
  for the parameters of \<open>m\<close> with learning rate \<open>lr\<close>, and \<open>step opt objective m\<close> is one
  \<^verbatim>\<open>loss.backward(); optimizer.step()\<close>, which reads the objective as a function of the
  parameters and gives the new optimizer state and the updated model. Both are
  parameters of \<open>fit\<close>. The loop runs \<open>epochs\<close> times and appends each loss before the
  step; an error of the loss evaluation leaves the loop.
\<close>

type_synonym 'o optimizer_step = "'o \<Rightarrow> (model \<Rightarrow> error + real option) \<Rightarrow> model \<Rightarrow> 'o \<times> model"

fun fit_loop ::
  "'o optimizer_step \<Rightarrow> (real \<Rightarrow> real \<Rightarrow> real) \<Rightarrow> tensor2 \<Rightarrow> real \<Rightarrow> nat \<Rightarrow> 'o \<Rightarrow> model
     \<Rightarrow> real option list \<Rightarrow> error + model \<times> real option list" where
  "fit_loop step lp answers alpha 0 opt m losses = Inr (m, losses)"
| "fit_loop step lp answers alpha (Suc k) opt m losses =
     and_then (loss lp alpha m answers) (\<lambda>l.
       case step opt (\<lambda>m'. loss lp alpha m' answers) m of
         (opt', m') \<Rightarrow> fit_loop step lp answers alpha k opt' m' (losses @ [l]))"

text \<open>
  \<^verbatim>\<open>def fit(model, answers, epochs, alpha=1.0, see_progress=True)\<close>: an omitted
  \<^verbatim>\<open>alpha\<close> is \<open>None\<close>; the progress bar and the device transfer change no value.
\<close>

definition fit ::
  "(model \<Rightarrow> real \<Rightarrow> 'o) \<Rightarrow> 'o optimizer_step \<Rightarrow> (real \<Rightarrow> real \<Rightarrow> real) \<Rightarrow> model \<Rightarrow> tensor2 \<Rightarrow> nat
     \<Rightarrow> real option \<Rightarrow> error + model \<times> real option list" where
  "fit adam step lp m answers epochs alpha_arg =
     (let alpha = (case alpha_arg of None \<Rightarrow> 1.0 | Some a \<Rightarrow> a);
          optimizer = adam m 0.01
      in fit_loop step lp answers alpha epochs optimizer m [])"

section \<open>Predicting the cheater\<close>

text \<open>
  With the lowest likelihood of the answers:
  \<^verbatim>\<open>log_probs = model().log_prob(answers).sum(axis=1)\<close>,
  \<^verbatim>\<open>predicted_cheater = log_probs.argmin()\<close>.
\<close>

definition log_probs :: "(real \<Rightarrow> real \<Rightarrow> real) \<Rightarrow> model \<Rightarrow> tensor2 \<Rightarrow> error + real list" where
  "log_probs lp m answers =
     and_then (forward m) (\<lambda>distribution.
     and_then (log_prob lp distribution answers) (\<lambda>ll. Inr (sum_axis1 ll)))"

definition predicted_cheater :: "(real \<Rightarrow> real \<Rightarrow> real) \<Rightarrow> model \<Rightarrow> tensor2 \<Rightarrow> error + nat" where
  "predicted_cheater lp m answers = and_then (log_probs lp m answers) argmin"

text \<open>
  With the model that includes the cheater:
  \<^verbatim>\<open>predicted_cheater = F.softmax(model.cheater_logits).argmax()\<close>.
\<close>

definition cheater_probs :: "model \<Rightarrow> error + real list" where
  "cheater_probs m = and_then (cheater_logits m) (\<lambda>lg. Inr (softmax lg))"

definition predicted_cheater_mixture :: "model \<Rightarrow> error + nat" where
  "predicted_cheater_mixture m = and_then (cheater_probs m) argmax"

section \<open>Notions used to state the properties\<close>

text \<open>
  A model is consistent when it has one cheater logit per skill, as the constructor
  makes it; it matches a matrix when moreover it has one skill per row and one
  difficulty per column.
\<close>

fun consistent :: "model \<Rightarrow> bool" where
  "consistent (ResponseModel sk df) = True"
| "consistent (ResponseModelWithCheater sk df lg) = (length lg = length sk)"

definition shape_ok :: "model \<Rightarrow> tensor2 \<Rightarrow> bool" where
  "shape_ok m a =
     (consistent m \<and> length (skill m) = nrows a \<and> length (difficulty m) = ncols a)"

text \<open>Two sizes that broadcasting rejects.\<close>

definition mismatch :: "nat \<Rightarrow> nat \<Rightarrow> bool" where
  "mismatch a b = (a \<noteq> b \<and> a \<noteq> 1 \<and> b \<noteq> 1)"

text \<open>
  A matrix of answers is binary. A model is compatible with a matrix when it is
  consistent and broadcasting accepts its sizes against those of the matrix.
\<close>

definition binary :: "tensor2 \<Rightarrow> bool" where
  "binary a = (\<forall>i<nrows a. \<forall>j<ncols a. cell a i j = 0 \<or> cell a i j = 1)"

definition compatible :: "model \<Rightarrow> tensor2 \<Rightarrow> bool" where
  "compatible m a =
     (consistent m \<and> \<not> mismatch (length (skill m)) (nrows a)
      \<and> \<not> mismatch (length (difficulty m)) (ncols a))"

text \<open>The optimizer state and the model after \<open>k\<close> epochs.\<close>

fun state_after ::
  "'o optimizer_step \<Rightarrow> (model \<Rightarrow> error + real option) \<Rightarrow> nat \<Rightarrow> 'o \<times> model \<Rightarrow> 'o \<times> model" where
  "state_after step objective 0 s = s"
| "state_after step objective (Suc k) s =
     state_after step objective k (step (fst s) objective (snd s))"

text \<open>
  The total log-likelihood of the answer row of student \<open>i\<close> under the baseline model.
\<close>

definition row_log_likelihood ::
  "(real \<Rightarrow> real \<Rightarrow> real) \<Rightarrow> real list \<Rightarrow> real list \<Rightarrow> tensor2 \<Rightarrow> nat \<Rightarrow> real" where
  "row_log_likelihood lp sk df answers i =
     (\<Sum>j<length df. lp (sigmoid (sk ! i - df ! j)) (cell answers i j))"

text \<open>
  Concrete instances for worked examples: the log-mass of a Bernoulli variable on exact
  reals, a matrix given by its rows, and an optimizer whose state is its learning rate
  (or its learning rate capped at 0.01) and whose step lowers every difficulty by it.
\<close>

definition log_mass :: "real \<Rightarrow> real \<Rightarrow> real" where
  "log_mass p x = x * ln p + (1 - x) * ln (1 - p)"

definition matrix :: "nat \<Rightarrow> real list list \<Rightarrow> tensor2" where
  "matrix m rs = \<lparr>nrows = length rs, ncols = m, cell = (\<lambda>i j. rs ! i ! j)\<rparr>"

definition lr_state :: "model \<Rightarrow> real \<Rightarrow> real" where
  "lr_state m lr = lr"

definition capped_lr_state :: "model \<Rightarrow> real \<Rightarrow> real" where
  "capped_lr_state m lr = min lr (1/100)"

fun lower_difficulty :: "real optimizer_step" where
  "lower_difficulty lr objective (ResponseModel sk df) =
     (lr, ResponseModel sk (map (\<lambda>d. d - lr) df))"
| "lower_difficulty lr objective (ResponseModelWithCheater sk df lg) =
     (lr, ResponseModelWithCheater sk (map (\<lambda>d. d - lr) df) lg)"

section \<open>The float32 arithmetic of the tensors\<close>

text \<open>
  The tensors hold IEEE binary32 numbers. A value is a finite number, an infinity or
  not-a-number; the two zeros are not told apart. \<open>rnd\<close> rounds a real to the nearest
  binary32 number, ties to the even significand: numbers from \<open>2^e\<close> up to \<open>2^(e+1)\<close>
  are spaced \<open>2^(e-23)\<close> apart, those below \<open>2^-126\<close> are spaced \<open>2^-149\<close> apart, and a
  result of magnitude \<open>2^128\<close> is an infinity.
\<close>

datatype f32 = Fin real | PInf | MInf | NaN

definition round_even :: "real \<Rightarrow> int" where
  "round_even y =
     (let f = \<lfloor>y\<rfloor> in
      if y - of_int f < 1/2 then f
      else if 1/2 < y - of_int f then f + 1
      else if even f then f else f + 1)"

definition ulp :: "real \<Rightarrow> real" where
  "ulp x = 2 powi (max \<lfloor>log 2 \<bar>x\<bar>\<rfloor> (- 126) - 23)"

definition rnd :: "real \<Rightarrow> f32" where
  "rnd x =
     (if x = 0 then Fin 0
      else let r = ulp x * of_int (round_even (x / ulp x))
           in if 2 ^ 128 \<le> r then PInf else if r \<le> - (2 ^ 128) then MInf else Fin r)"

text \<open>
  Negation, addition, multiplication and division round once and treat infinities and
  not-a-number as IEEE 754 does. The exponential and the sigmoid of the tensor library
  are taken as correctly rounded.
\<close>

fun neg32 :: "f32 \<Rightarrow> f32" where
  "neg32 (Fin x) = Fin (- x)"
| "neg32 PInf = MInf"
| "neg32 MInf = PInf"
| "neg32 NaN = NaN"

fun add32 :: "f32 \<Rightarrow> f32 \<Rightarrow> f32" where
  "add32 (Fin x) (Fin y) = rnd (x + y)"
| "add32 NaN b = NaN"
| "add32 a NaN = NaN"
| "add32 PInf MInf = NaN"
| "add32 MInf PInf = NaN"
| "add32 PInf b = PInf"
| "add32 a PInf = PInf"
| "add32 MInf b = MInf"
| "add32 a MInf = MInf"

definition sub32 :: "f32 \<Rightarrow> f32 \<Rightarrow> f32" where
  "sub32 a b = add32 a (neg32 b)"



fun le32 :: "f32 \<Rightarrow> f32 \<Rightarrow> bool" where
  "le32 NaN b = False"
| "le32 a NaN = False"
| "le32 MInf b = True"
| "le32 a PInf = True"
| "le32 PInf b = False"
| "le32 a MInf = False"
| "le32 (Fin x) (Fin y) = (x \<le> y)"



fun sigmoid32 :: "f32 \<Rightarrow> f32" where
  "sigmoid32 (Fin x) = rnd (sigmoid x)"
| "sigmoid32 PInf = Fin 1"
| "sigmoid32 MInf = Fin 0"
| "sigmoid32 NaN = NaN"








text \<open>
  The code in float32, for parameter vectors whose lengths match the matrix: the entry
  \<open>(i, j)\<close> of the probability matrix of \<^verbatim>\<open>ResponseModel.forward\<close>, a vector with a
  constant added to every entry, and the loss of one epoch for the baseline model. The
  per-cell log-probability is a parameter, as in the exact embedding; \<open>log_mass32\<close> is
  the instance used in worked examples.
\<close>

definition forward32 :: "f32 list \<Rightarrow> f32 list \<Rightarrow> nat \<Rightarrow> nat \<Rightarrow> f32" where
  "forward32 sk df i j = sigmoid32 (sub32 (sk ! i) (df ! j))"

definition shift32 :: "f32 \<Rightarrow> f32 list \<Rightarrow> f32 list" where
  "shift32 c xs = map (\<lambda>x. add32 x c) xs"



section \<open>Shapes and entries of the probability matrix\<close>

lemma broadcast_dim_same [simp]: "broadcast_dim n n = Some n"
  by (simp add: broadcast_dim_def)

lemma broadcast_dim_one_right [simp]: "broadcast_dim n (Suc 0) = Some n"
  by (simp add: broadcast_dim_def)

lemma broadcast_dim_one_left [simp]: "broadcast_dim (Suc 0) n = Some n"
  by (auto simp add: broadcast_dim_def)

lemma pick_in_range: "i < d \<Longrightarrow> pick d i = i"
  by (auto simp add: pick_def)

lemma col_simps [simp]:
  "nrows (col v) = length v" "ncols (col v) = 1" "cell (col v) i j = v ! i"
  by (simp_all add: col_def)

lemma row_simps [simp]:
  "nrows (row v) = 1" "ncols (row v) = length v" "cell (row v) i j = v ! j"
  by (simp_all add: row_def)

lemma map_t_simps [simp]:
  "nrows (map_t f a) = nrows a" "ncols (map_t f a) = ncols a"
  "cell (map_t f a) i j = f (cell a i j)"
  by (simp_all add: map_t_def)

lemma length_softmax [simp]: "length (softmax xs) = length xs"
  by (simp add: softmax_def)

lemma pick_one [simp]: "pick (Suc 0) i = 0"
  by (simp add: pick_def)

lemma pick_pick [simp]: "pick d (pick d i) = pick d i"
  by (simp add: pick_def)

lemma bop_Inr:
  assumes "broadcast_dim (nrows a) (nrows b) = Some n"
    and "broadcast_dim (ncols a) (ncols b) = Some m"
  shows "bop f a b =
     Inr \<lparr>nrows = n, ncols = m,
          cell = (\<lambda>i j. f (cell a (pick (nrows a) i) (pick (ncols a) j))
                         (cell b (pick (nrows b) i) (pick (ncols b) j)))\<rparr>"
  using assms by (simp add: bop_def)

lemma sub_col_row:
  "bop (-) (col sk) (row df) =
     Inr \<lparr>nrows = length sk, ncols = length df,
          cell = (\<lambda>i j. sk ! pick (length sk) i - df ! pick (length df) j)\<rparr>"
  by (simp add: bop_def col_def row_def pick_def)

lemma forward_ResponseModel:
  "forward (ResponseModel sk df) =
     Inr \<lparr>nrows = length sk, ncols = length df,
          cell = (\<lambda>i j. sigmoid (sk ! pick (length sk) i - df ! pick (length df) j))\<rparr>"
  by (simp add: sub_col_row and_then_def map_t_def)

declare forward.simps [simp del]

text \<open>
  In exact arithmetic, adding the same constant to every skill and to every difficulty
  leaves the probability matrix of \<^verbatim>\<open>ResponseModel.forward\<close> unchanged. The float32
  subtraction of the code does not have this property; see the float32 section.
\<close>

lemma forward_translation_invariant_exact:
  "\<exists>P Q. forward (ResponseModel sk df) = Inr P
       \<and> forward (ResponseModel (map (\<lambda>s. s + C) sk) (map (\<lambda>d. d + C) df)) = Inr Q
       \<and> nrows Q = nrows P \<and> ncols Q = ncols P
       \<and> nrows P = length sk \<and> ncols P = length df
       \<and> (\<forall>i j. i < length sk \<and> j < length df \<longrightarrow>
             cell P i j = sigmoid (sk ! i - df ! j) \<and> cell Q i j = cell P i j)"
  by (simp add: forward_ResponseModel pick_in_range)

lemma forward_ResponseModelWithCheater:
  assumes "length lg = length sk"
  shows "\<exists>P. forward (ResponseModelWithCheater sk df lg) = Inr P
           \<and> nrows P = length sk \<and> ncols P = length df
           \<and> (\<forall>i j. cell P i j =
                 softmax lg ! pick (length sk) i
                   * (0.5 * sigmoid (sk ! pick (length sk) i - df ! pick (length df) j) + 0.5)
                 + (1 - softmax lg ! pick (length sk) i)
                   * sigmoid (sk ! pick (length sk) i - df ! pick (length df) j))"
proof -
  let ?d = "\<lparr>nrows = length sk, ncols = length df,
              cell = (\<lambda>i j. sk ! pick (length sk) i - df ! pick (length df) j)\<rparr>"
  let ?cp = "col (softmax lg)"
  let ?nc = "map_t sigmoid ?d"
  let ?ac = "map_t (\<lambda>p. 0.5 * p + 0.5 * 1) (map_t sigmoid ?d)"
  obtain a where a: "bop (*) ?cp ?ac = Inr a" "nrows a = length sk" "ncols a = length df"
    and a_cell: "\<And>i j. cell a i j
        = cell ?cp (pick (length sk) i) 0 * cell ?ac (pick (length sk) i) (pick (length df) j)"
    using assms by (simp add: bop_Inr [where n = "length sk" and m = "length df"])
  obtain b where b: "bop (*) (map_t (\<lambda>c. 1 - c) ?cp) ?nc = Inr b"
      "nrows b = length sk" "ncols b = length df"
    and b_cell: "\<And>i j. cell b i j
        = cell (map_t (\<lambda>c. 1 - c) ?cp) (pick (length sk) i) 0
            * cell ?nc (pick (length sk) i) (pick (length df) j)"
    using assms by (simp add: bop_Inr [where n = "length sk" and m = "length df"])
  obtain P where P: "bop (+) a b = Inr P" "nrows P = length sk" "ncols P = length df"
    and P_cell: "\<And>i j. cell P i j
        = cell a (pick (length sk) i) (pick (length df) j)
          + cell b (pick (length sk) i) (pick (length df) j)"
    using a(2,3) b(2,3) by (simp add: bop_Inr [where n = "length sk" and m = "length df"])
  have fw: "forward (ResponseModelWithCheater sk df lg) = Inr P"
    by (simp only: forward.simps sub_col_row and_then_def Let_def a(1) b(1) P(1) sum.case)
  have "cell P i j =
          softmax lg ! pick (length sk) i
            * (0.5 * sigmoid (sk ! pick (length sk) i - df ! pick (length df) j) + 0.5)
          + (1 - softmax lg ! pick (length sk) i)
            * sigmoid (sk ! pick (length sk) i - df ! pick (length df) j)" for i j
    by (simp add: P_cell a_cell b_cell)
  with fw P(2,3) show ?thesis by blast
qed

text \<open>
  C1. For a model with cheater whose logit vector is as long as its skill vector (as
  the constructor makes it), \<^verbatim>\<open>forward\<close> succeeds and every entry of the probability
  matrix is \<open>cheater_prob[i] * p_cheat(i,j) + (1 - cheater_prob[i]) * p_no_cheat(i,j)\<close> with
  \<open>cheater_prob = softmax(cheater_logits)\<close>,
  \<open>p_no_cheat(i,j) = sigmoid(skill[i] - difficulty[j])\<close> and
  \<open>p_cheat(i,j) = 0.5 * sigmoid(skill[i] - difficulty[j]) + 0.5\<close>.
\<close>

theorem mixture_probability:
  assumes "length lg = length sk"
  shows "\<exists>P. forward (ResponseModelWithCheater sk df lg) = Inr P
           \<and> nrows P = length sk \<and> ncols P = length df
           \<and> (\<forall>i j. i < length sk \<and> j < length df \<longrightarrow>
                 cell P i j =
                   softmax lg ! i * (0.5 * sigmoid (sk ! i - df ! j) + 0.5)
                   + (1 - softmax lg ! i) * sigmoid (sk ! i - df ! j))"
proof -
  obtain P where P: "forward (ResponseModelWithCheater sk df lg) = Inr P"
      "nrows P = length sk" "ncols P = length df"
    and broadcast: "\<And>i j. cell P i j =
        softmax lg ! pick (length sk) i
          * (0.5 * sigmoid (sk ! pick (length sk) i - df ! pick (length df) j) + 0.5)
        + (1 - softmax lg ! pick (length sk) i)
          * sigmoid (sk ! pick (length sk) i - df ! pick (length df) j)"
    using forward_ResponseModelWithCheater [OF assms, of df] by blast
  have "cell P i j =
          softmax lg ! i * (0.5 * sigmoid (sk ! i - df ! j) + 0.5)
          + (1 - softmax lg ! i) * sigmoid (sk ! i - df ! j)"
    if "i < length sk" "j < length df" for i j
    using that broadcast [of i j] by (simp add: pick_in_range)
  with P show ?thesis by blast
qed

theorem mixture_probability_witness:
  "\<exists>P. forward (ResponseModelWithCheater_init 2 1) = Inr P
      \<and> nrows P = 2 \<and> ncols P = 1 \<and> cell P 1 0 = 5/8"
proof -
  obtain P where P: "forward (ResponseModelWithCheater [0, 0] [0] [0, 0]) = Inr P"
      "nrows P = length [0::real, 0]" "ncols P = length [0::real]"
    and P_cell: "\<And>i j. i < length [0::real, 0] \<and> j < length [0::real] \<Longrightarrow>
        cell P i j = softmax [0, 0] ! i * (0.5 * sigmoid ([0, 0] ! i - [0] ! j) + 0.5)
                     + (1 - softmax [0, 0] ! i) * sigmoid ([0, 0] ! i - [0] ! j)"
    using mixture_probability [of "[0, 0]" "[0, 0]" "[0]"] by auto
  have "cell P 1 0 = 5/8"
    using P_cell [of 1 0] by (simp add: softmax_def sigmoid_def)
  with P show ?thesis
    by (simp add: ResponseModelWithCheater_init_def numeral_2_eq_2)
qed

section \<open>The scans for the least and the greatest entry\<close>

lemma argmax_scan_first_max:
  assumes "best < length pre" "v = pre ! best"
    and "\<forall>k<length pre. pre ! k \<le> v" "\<forall>k<best. pre ! k < v"
  shows "argmax_scan best v (length pre) ys < length (pre @ ys)
       \<and> (\<forall>k<length (pre @ ys). (pre @ ys) ! k \<le> (pre @ ys) ! argmax_scan best v (length pre) ys)
       \<and> (\<forall>k<argmax_scan best v (length pre) ys.
             (pre @ ys) ! k < (pre @ ys) ! argmax_scan best v (length pre) ys)"
  using assms
proof (induction ys arbitrary: pre best v)
  case Nil
  then show ?case by simp
next
  case (Cons y ys)
  show ?case
  proof (cases "v < y")
    case True
    have "argmax_scan (length pre) y (length (pre @ [y])) ys < length ((pre @ [y]) @ ys)
       \<and> (\<forall>k<length ((pre @ [y]) @ ys).
             ((pre @ [y]) @ ys) ! k \<le> ((pre @ [y]) @ ys) ! argmax_scan (length pre) y (length (pre @ [y])) ys)
       \<and> (\<forall>k<argmax_scan (length pre) y (length (pre @ [y])) ys.
             ((pre @ [y]) @ ys) ! k < ((pre @ [y]) @ ys) ! argmax_scan (length pre) y (length (pre @ [y])) ys)"
    proof (rule Cons.IH)
      show "length pre < length (pre @ [y])" by simp
      show "y = (pre @ [y]) ! length pre" by simp
      show "\<forall>k<length (pre @ [y]). (pre @ [y]) ! k \<le> y"
        using Cons.prems(3) True by (auto simp add: nth_append less_Suc_eq)
      show "\<forall>k<length pre. (pre @ [y]) ! k < y"
        using Cons.prems(3) True by (auto simp add: nth_append)
    qed
    with True show ?thesis by simp
  next
    case False
    have "argmax_scan best v (length (pre @ [y])) ys < length ((pre @ [y]) @ ys)
       \<and> (\<forall>k<length ((pre @ [y]) @ ys).
             ((pre @ [y]) @ ys) ! k \<le> ((pre @ [y]) @ ys) ! argmax_scan best v (length (pre @ [y])) ys)
       \<and> (\<forall>k<argmax_scan best v (length (pre @ [y])) ys.
             ((pre @ [y]) @ ys) ! k < ((pre @ [y]) @ ys) ! argmax_scan best v (length (pre @ [y])) ys)"
    proof (rule Cons.IH)
      show "best < length (pre @ [y])" using Cons.prems(1) by simp
      show "v = (pre @ [y]) ! best" using Cons.prems(1,2) by (simp add: nth_append)
      show "\<forall>k<length (pre @ [y]). (pre @ [y]) ! k \<le> v"
        using Cons.prems(3) False by (auto simp add: nth_append less_Suc_eq)
      show "\<forall>k<best. (pre @ [y]) ! k < v"
        using Cons.prems(1,4) by (auto simp add: nth_append)
    qed
    with False show ?thesis by simp
  qed
qed

lemma argmax_first_max:
  assumes "xs \<noteq> []"
  shows "\<exists>i. argmax xs = Inr i \<and> i < length xs
           \<and> (\<forall>k<length xs. xs ! k \<le> xs ! i) \<and> (\<forall>k<i. xs ! k < xs ! i)"
proof -
  obtain x rest where xs: "xs = x # rest" using assms by (cases xs) auto
  have "argmax_scan 0 x (length [x]) rest < length ([x] @ rest)
       \<and> (\<forall>k<length ([x] @ rest). ([x] @ rest) ! k \<le> ([x] @ rest) ! argmax_scan 0 x (length [x]) rest)
       \<and> (\<forall>k<argmax_scan 0 x (length [x]) rest.
             ([x] @ rest) ! k < ([x] @ rest) ! argmax_scan 0 x (length [x]) rest)"
    by (rule argmax_scan_first_max) simp_all
  then show ?thesis by (simp add: xs argmax_def)
qed

lemma argmax_scan_map:
  assumes "\<And>a b. (f a < f b) = (a < (b::real))"
  shows "argmax_scan best (f v) i (map f ys) = argmax_scan best v i ys"
  by (induction ys arbitrary: best v i) (simp_all add: assms)

lemma argmax_map:
  assumes "\<And>a b. (f a < f b) = (a < (b::real))"
  shows "argmax (map f xs) = argmax xs"
  by (cases xs) (simp_all add: argmax_def argmax_scan_map [OF assms])

lemma sum_exp_nonneg: "0 \<le> sum_list (map exp (xs :: real list))"
  by (rule sum_list_nonneg) auto

lemma sum_exp_pos: "xs \<noteq> [] \<Longrightarrow> 0 < sum_list (map exp (xs :: real list))"
proof (cases xs)
  case Nil
  assume "xs \<noteq> []"
  with Nil show ?thesis by simp
next
  case (Cons x rest)
  have "0 < exp x + sum_list (map exp rest)"
    by (rule add_pos_nonneg) (simp_all add: sum_exp_nonneg)
  with Cons show ?thesis by simp
qed

lemma argmax_softmax: "argmax (softmax xs) = argmax xs"
proof (cases "xs = []")
  case True
  then show ?thesis by (simp add: softmax_def)
next
  case False
  then have Z: "0 < sum_list (map exp xs)" by (rule sum_exp_pos)
  have "(exp a / sum_list (map exp xs) < exp b / sum_list (map exp xs)) = (a < b)" for a b
    using Z by (simp add: divide_less_cancel)
  then show ?thesis unfolding softmax_def by (rule argmax_map)
qed

lemma argmin_scan_first_min:
  assumes "best < length pre" "v = pre ! best"
    and "\<forall>k<length pre. v \<le> pre ! k" "\<forall>k<best. v < pre ! k"
  shows "argmin_scan best v (length pre) ys < length (pre @ ys)
       \<and> (\<forall>k<length (pre @ ys). (pre @ ys) ! argmin_scan best v (length pre) ys \<le> (pre @ ys) ! k)
       \<and> (\<forall>k<argmin_scan best v (length pre) ys.
             (pre @ ys) ! argmin_scan best v (length pre) ys < (pre @ ys) ! k)"
  using assms
proof (induction ys arbitrary: pre best v)
  case Nil
  then show ?case by simp
next
  case (Cons y ys)
  show ?case
  proof (cases "y < v")
    case True
    have "argmin_scan (length pre) y (length (pre @ [y])) ys < length ((pre @ [y]) @ ys)
       \<and> (\<forall>k<length ((pre @ [y]) @ ys).
             ((pre @ [y]) @ ys) ! argmin_scan (length pre) y (length (pre @ [y])) ys \<le> ((pre @ [y]) @ ys) ! k)
       \<and> (\<forall>k<argmin_scan (length pre) y (length (pre @ [y])) ys.
             ((pre @ [y]) @ ys) ! argmin_scan (length pre) y (length (pre @ [y])) ys < ((pre @ [y]) @ ys) ! k)"
    proof (rule Cons.IH)
      show "length pre < length (pre @ [y])" by simp
      show "y = (pre @ [y]) ! length pre" by simp
      show "\<forall>k<length (pre @ [y]). y \<le> (pre @ [y]) ! k"
        using Cons.prems(3) True by (auto simp add: nth_append less_Suc_eq)
      show "\<forall>k<length pre. y < (pre @ [y]) ! k"
        using Cons.prems(3) True by (auto simp add: nth_append)
    qed
    with True show ?thesis by simp
  next
    case False
    have "argmin_scan best v (length (pre @ [y])) ys < length ((pre @ [y]) @ ys)
       \<and> (\<forall>k<length ((pre @ [y]) @ ys).
             ((pre @ [y]) @ ys) ! argmin_scan best v (length (pre @ [y])) ys \<le> ((pre @ [y]) @ ys) ! k)
       \<and> (\<forall>k<argmin_scan best v (length (pre @ [y])) ys.
             ((pre @ [y]) @ ys) ! argmin_scan best v (length (pre @ [y])) ys < ((pre @ [y]) @ ys) ! k)"
    proof (rule Cons.IH)
      show "best < length (pre @ [y])" using Cons.prems(1) by simp
      show "v = (pre @ [y]) ! best" using Cons.prems(1,2) by (simp add: nth_append)
      show "\<forall>k<length (pre @ [y]). v \<le> (pre @ [y]) ! k"
        using Cons.prems(3) False by (auto simp add: nth_append less_Suc_eq)
      show "\<forall>k<best. v < (pre @ [y]) ! k"
        using Cons.prems(1,4) by (auto simp add: nth_append)
    qed
    with False show ?thesis by simp
  qed
qed

lemma argmin_first_min:
  assumes "xs \<noteq> []"
  shows "\<exists>i. argmin xs = Inr i \<and> i < length xs
           \<and> (\<forall>k<length xs. xs ! i \<le> xs ! k) \<and> (\<forall>k<i. xs ! i < xs ! k)"
proof -
  obtain x rest where xs: "xs = x # rest" using assms by (cases xs) auto
  have "argmin_scan 0 x (length [x]) rest < length ([x] @ rest)
       \<and> (\<forall>k<length ([x] @ rest). ([x] @ rest) ! argmin_scan 0 x (length [x]) rest \<le> ([x] @ rest) ! k)
       \<and> (\<forall>k<argmin_scan 0 x (length [x]) rest.
             ([x] @ rest) ! argmin_scan 0 x (length [x]) rest < ([x] @ rest) ! k)"
    by (rule argmin_scan_first_min) simp_all
  then show ?thesis by (simp add: xs argmin_def)
qed

lemma sum_list_upt: "sum_list (map f [0..<n]) = (\<Sum>j<n. (f j :: real))"
  by (simp add: interv_sum_list_conv_sum_set_nat atLeast0LessThan)

lemma log_prob_cells:
  assumes "nrows P = nrows answers" "ncols P = ncols answers"
  shows "\<exists>ll. log_prob lp P answers = Inr ll \<and> nrows ll = nrows answers
           \<and> ncols ll = ncols answers
           \<and> (\<forall>i j. i < nrows answers \<and> j < ncols answers \<longrightarrow>
                 cell ll i j = lp (cell P i j) (cell answers i j))"
  using assms
  by (simp add: log_prob_def bop_Inr [where n = "nrows answers" and m = "ncols answers"]
      pick_in_range)

lemma sum_axis1_cong:
  assumes "\<And>i j. i < nrows t \<and> j < ncols t \<Longrightarrow> cell t i j = g i j"
  shows "sum_axis1 t = map (\<lambda>i. \<Sum>j<ncols t. g i j) [0..<nrows t]"
  unfolding sum_axis1_def sum_list_upt
  by (rule map_cong [OF refl]) (simp add: assms)

lemma log_probs_ResponseModel:
  assumes "length sk = nrows answers" "length df = ncols answers"
  shows "log_probs lp (ResponseModel sk df) answers =
           Inr (map (row_log_likelihood lp sk df answers) [0..<length sk])"
proof -
  let ?P = "\<lparr>nrows = length sk, ncols = length df,
          cell = (\<lambda>i j. sigmoid (sk ! pick (length sk) i - df ! pick (length df) j))\<rparr>"
  obtain ll where ll: "log_prob lp ?P answers = Inr ll" "nrows ll = nrows answers"
      "ncols ll = ncols answers"
    and ll_cell: "\<And>i j. i < nrows answers \<and> j < ncols answers \<Longrightarrow>
        cell ll i j = lp (cell ?P i j) (cell answers i j)"
    using log_prob_cells [of ?P answers lp] assms by auto
  have "sum_axis1 ll
      = map (\<lambda>i. \<Sum>j<ncols ll. lp (sigmoid (sk ! i - df ! j)) (cell answers i j)) [0..<nrows ll]"
    by (rule sum_axis1_cong) (simp add: ll ll_cell assms [symmetric] pick_in_range)
  then have "sum_axis1 ll = map (row_log_likelihood lp sk df answers) [0..<length sk]"
    by (simp add: row_log_likelihood_def ll assms)
  then show ?thesis
    by (simp add: log_probs_def forward_ResponseModel and_then_def ll(1))
qed

section \<open>The predicted cheater\<close>

text \<open>
  C4. For a baseline model whose parameter vectors match a matrix with at least one
  student, the prediction with the lowest likelihood succeeds and returns an index \<open>i\<close>
  of a student whose row sum of per-cell log-likelihoods
  \<open>\<Sum>j. lp (sigmoid (skill[i] - difficulty[j])) (answers[i][j])\<close> is the least of all rows;
  it is the first such index.
\<close>

theorem predicted_cheater_argmin:
  assumes "length sk = nrows answers" "length df = ncols answers" "0 < nrows answers"
  shows "\<exists>i. predicted_cheater lp (ResponseModel sk df) answers = Inr i
           \<and> i < length sk
           \<and> (\<forall>k<length sk. row_log_likelihood lp sk df answers i
                               \<le> row_log_likelihood lp sk df answers k)
           \<and> (\<forall>k<i. row_log_likelihood lp sk df answers i
                       < row_log_likelihood lp sk df answers k)"
proof -
  let ?xs = "map (row_log_likelihood lp sk df answers) [0..<length sk]"
  have "?xs \<noteq> []" using assms by simp
  from argmin_first_min [OF this] obtain i where i: "argmin ?xs = Inr i" "i < length ?xs"
      "\<forall>k<length ?xs. ?xs ! i \<le> ?xs ! k" "\<forall>k<i. ?xs ! i < ?xs ! k"
    by blast
  have "predicted_cheater lp (ResponseModel sk df) answers = Inr i"
    by (simp add: predicted_cheater_def log_probs_ResponseModel [OF assms(1,2)] and_then_def i(1))
  moreover have "i < length sk" using i(2) by simp
  moreover have "\<forall>k<length sk. row_log_likelihood lp sk df answers i
                               \<le> row_log_likelihood lp sk df answers k"
    using i(2,3) by simp
  moreover have "\<forall>k<i. row_log_likelihood lp sk df answers i
                       < row_log_likelihood lp sk df answers k"
    using i(2,4) by simp
  ultimately show ?thesis by blast
qed

theorem predicted_cheater_argmin_witness:
  "predicted_cheater log_mass (ResponseModel [0, ln 3] [0]) (matrix 1 [[1], [0]]) = Inr 1"
proof -
  let ?a = "matrix 1 [[1], [0]]"
  let ?r = "row_log_likelihood log_mass [0, ln 3] [0] ?a"
  have s: "sigmoid 0 = 1/2" "sigmoid (ln 3) = 3/4"
    by (simp_all add: sigmoid_def exp_minus)
  have r0: "?r 0 = ln (1/2)" and r1: "?r 1 = ln (1/4)"
    by (simp_all add: row_log_likelihood_def log_mass_def matrix_def s)
  obtain i where i: "predicted_cheater log_mass (ResponseModel [0, ln 3] [0]) ?a = Inr i"
      "i < length [0, ln (3::real)]" "\<forall>k<length [0, ln (3::real)]. ?r i \<le> ?r k"
    using predicted_cheater_argmin [of "[0, ln 3]" ?a "[0]" log_mass]
    by (auto simp add: matrix_def)
  have lt: "ln (1/4) < ln (1/(2::real))" by (subst ln_less_cancel_iff) simp_all
  have le: "?r i \<le> ?r 1" using i(3) by simp
  have "i \<noteq> 0"
  proof
    assume "i = 0"
    with le r0 r1 have "ln (1/2) \<le> ln (1/(4::real))" by simp
    with lt show False by simp
  qed
  with i(2) have "i = 1" by simp
  with i(1) show ?thesis by simp
qed

text \<open>
  C5. For a model with cheater and at least one student, the prediction returns an
  index at which the softmax of the cheater logits is greatest, the first such index.
  The prediction is a function of the model alone: the answers are not among its
  arguments.
\<close>

theorem predicted_cheater_mixture_argmax:
  assumes "lg \<noteq> []"
  shows "\<exists>i. predicted_cheater_mixture (ResponseModelWithCheater sk df lg) = Inr i
           \<and> i < length lg
           \<and> (\<forall>k<length lg. softmax lg ! k \<le> softmax lg ! i)
           \<and> (\<forall>k<i. softmax lg ! k < softmax lg ! i)"
proof -
  have "softmax lg \<noteq> []" using assms by (simp add: softmax_def)
  from argmax_first_max [OF this] show ?thesis
    by (simp add: predicted_cheater_mixture_def cheater_probs_def and_then_def)
qed

theorem predicted_cheater_mixture_argmax_witness:
  "predicted_cheater_mixture (ResponseModelWithCheater [0, 0, 0] [0] [0, 1, 0]) = Inr 1"
proof -
  let ?lg = "[0, 1, 0 :: real]"
  obtain i where i: "predicted_cheater_mixture (ResponseModelWithCheater [0, 0, 0] [0] ?lg) = Inr i"
      "i < length ?lg" "\<forall>k<length ?lg. softmax ?lg ! k \<le> softmax ?lg ! i"
    using predicted_cheater_mixture_argmax [of ?lg "[0, 0, 0]" "[0]"] by auto
  have Z: "0 < 1 + exp 1 + (1::real)" by (simp add: add_pos_pos)
  have le: "softmax ?lg ! 1 \<le> softmax ?lg ! i" using i(3) by simp
  have lt: "softmax ?lg ! 0 < softmax ?lg ! 1" "softmax ?lg ! 2 < softmax ?lg ! 1"
    using Z by (simp_all add: softmax_def divide_strict_right_mono add_pos_pos)
  have "i \<noteq> 0"
  proof
    assume "i = 0"
    with le lt(1) show False by simp
  qed
  moreover have "i \<noteq> 2"
  proof
    assume "i = 2"
    with le lt(2) show False by simp
  qed
  ultimately have "i \<noteq> 0" "i \<noteq> 2" by simp_all
  with i(2) have "i = 1" by (simp add: less_Suc_eq numeral_3_eq_3)
  with i(1) show ?thesis by simp
qed

text \<open>
  In exact arithmetic the softmax keeps the order of the entries, ties included, so the
  prediction is the \<^verbatim>\<open>argmax\<close> of the cheater logits themselves. The float32 softmax
  of the code can round distinct logits to equal entries; see the float32 section.
\<close>

lemma predicted_cheater_mixture_raw_logits_exact:
  "predicted_cheater_mixture m = and_then (cheater_logits m) argmax"
  by (cases m) (simp_all add: predicted_cheater_mixture_def cheater_probs_def and_then_def
      argmax_softmax)

section \<open>The loss and the fitting loop\<close>

lemma forward_shape:
  assumes "consistent m"
  shows "\<exists>P. forward m = Inr P \<and> nrows P = length (skill m) \<and> ncols P = length (difficulty m)"
proof (cases m)
  case (ResponseModel sk df)
  then show ?thesis by (simp add: forward_ResponseModel)
next
  case (ResponseModelWithCheater sk df lg)
  with assms have "length lg = length sk" by simp
  from forward_ResponseModelWithCheater [OF this, of df] ResponseModelWithCheater
  show ?thesis by auto
qed

lemma bop_eq_Inl:
  "(bop f a b = Inl e) =
     (e = ShapeMismatch \<and> (mismatch (nrows a) (nrows b) \<or> mismatch (ncols a) (ncols b)))"
  by (auto simp add: bop_def broadcast_dim_def mismatch_def split: option.splits)

lemma bop_shape:
  assumes "bop f a b = Inr c"
  shows "nrows c = (if nrows a = 1 then nrows b else nrows a)
       \<and> ncols c = (if ncols a = 1 then ncols b else ncols a)"
  using assms
  by (auto simp add: bop_def broadcast_dim_def split: option.splits if_splits)

lemma mean_t_Some:
  assumes "0 < nrows t" "0 < ncols t"
  shows "mean_t t = Some ((\<Sum>i<nrows t. \<Sum>j<ncols t. cell t i j) / real (nrows t * ncols t))"
  using assms by (simp add: mean_t_def sum_axis1_def sum_list_upt)

lemma loss_matching:
  assumes "shape_ok m answers" "0 < nrows answers" "0 < ncols answers"
  shows "\<exists>P. forward m = Inr P \<and> nrows P = nrows answers \<and> ncols P = ncols answers
           \<and> loss lp alpha m answers =
               Inr (Some (- ((\<Sum>i<nrows answers. \<Sum>j<ncols answers.
                               lp (cell P i j) (cell answers i j))
                             / real (nrows answers * ncols answers))
                          + alpha * (sum_list (difficulty m) / real (ncols answers)) ^ 2))"
proof -
  from assms(1) obtain P where P: "forward m = Inr P" "nrows P = nrows answers"
      "ncols P = ncols answers"
    using forward_shape [of m] by (auto simp add: shape_ok_def)
  obtain ll where ll: "log_prob lp P answers = Inr ll" "nrows ll = nrows answers"
      "ncols ll = ncols answers"
    and ll_cell: "\<And>i j. i < nrows answers \<and> j < ncols answers \<Longrightarrow>
        cell ll i j = lp (cell P i j) (cell answers i j)"
    using log_prob_cells [OF P(2,3), of lp] by auto
  have "(\<Sum>i<nrows ll. \<Sum>j<ncols ll. cell ll i j)
      = (\<Sum>i<nrows answers. \<Sum>j<ncols answers. lp (cell P i j) (cell answers i j))"
    unfolding ll(2,3) by (intro sum.cong refl) (simp add: ll_cell)
  then have mean_ll: "mean_t ll
      = Some ((\<Sum>i<nrows answers. \<Sum>j<ncols answers. lp (cell P i j) (cell answers i j))
              / real (nrows answers * ncols answers))"
    using assms(2,3) by (simp add: mean_t_Some ll(2,3))
  have "difficulty m \<noteq> []" "length (difficulty m) = ncols answers"
    using assms(1,3) by (auto simp add: shape_ok_def)
  then have mean_d: "mean_v (difficulty m)
      = Some (sum_list (difficulty m) / real (ncols answers))"
    by (simp add: mean_v_def)
  have "loss lp alpha m answers =
      Inr (Some (- ((\<Sum>i<nrows answers. \<Sum>j<ncols answers.
                        lp (cell P i j) (cell answers i j))
                    / real (nrows answers * ncols answers))
                 + alpha * (sum_list (difficulty m) / real (ncols answers)) ^ 2))"
    by (simp add: loss_def and_then_def P(1) ll(1) mean_ll mean_d nan_add_def nan_map_def)
  with P show ?thesis by blast
qed

lemma fit_loop_losses:
  assumes pres: "\<And>opt f m. shape_ok m answers \<Longrightarrow> shape_ok (snd (step opt f m)) answers"
    and "shape_ok m answers" "0 < nrows answers" "0 < ncols answers"
  shows "\<exists>ls'. fit_loop step lp answers alpha n opt m ls
           = Inr (snd (state_after step (\<lambda>m'. loss lp alpha m' answers) n (opt, m)), ls @ ls')
         \<and> length ls' = n
         \<and> (\<forall>k<n. loss lp alpha
                     (snd (state_after step (\<lambda>m'. loss lp alpha m' answers) k (opt, m))) answers
                   = Inr (ls' ! k))"
  using assms(2)
proof (induction n arbitrary: opt m ls)
  case 0
  then show ?case by simp
next
  case (Suc n)
  let ?obj = "\<lambda>m'. loss lp alpha m' answers"
  obtain l where l: "loss lp alpha m answers = Inr l"
    using loss_matching [OF Suc.prems assms(3,4), of lp alpha] by auto
  obtain opt' m' where st: "step opt ?obj m = (opt', m')" by (cases "step opt ?obj m")
  have ok': "shape_ok m' answers" using pres [OF Suc.prems, of opt ?obj] st by simp
  from Suc.IH [OF ok', of opt' "ls @ [l]"] obtain ls' where
    ih: "fit_loop step lp answers alpha n opt' m' (ls @ [l])
           = Inr (snd (state_after step ?obj n (opt', m')), (ls @ [l]) @ ls')"
      "length ls' = n"
      "\<forall>k<n. loss lp alpha (snd (state_after step ?obj k (opt', m'))) answers = Inr (ls' ! k)"
    by blast
  have "fit_loop step lp answers alpha (Suc n) opt m ls
      = Inr (snd (state_after step ?obj (Suc n) (opt, m)), ls @ (l # ls'))"
    by (simp add: and_then_def l st ih(1))
  moreover have "length (l # ls') = Suc n" using ih(2) by simp
  moreover have "loss lp alpha (snd (state_after step ?obj k (opt, m))) answers
                   = Inr ((l # ls') ! k)" if "k < Suc n" for k
  proof (cases k)
    case 0
    then show ?thesis by (simp add: l)
  next
    case (Suc k')
    with that ih(3) show ?thesis by (simp add: st)
  qed
  ultimately show ?case by blast
qed

lemma state_after_shape_ok:
  assumes pres: "\<And>opt f m. shape_ok m answers \<Longrightarrow> shape_ok (snd (step opt f m)) answers"
    and "shape_ok (snd s) answers"
  shows "shape_ok (snd (state_after step objective k s)) answers"
  using assms(2) by (induction k arbitrary: s) (simp_all add: pres)

lemma fit_loop_length:
  "fit_loop step lp answers alpha n opt m ls = Inr (m', ls') \<Longrightarrow> length ls' = length ls + n"
proof (induction n arbitrary: opt m ls)
  case 0
  then show ?case by simp
next
  case (Suc n)
  from Suc.prems obtain l where l: "loss lp alpha m answers = Inr l"
    by (cases "loss lp alpha m answers") (simp_all add: and_then_def)
  obtain opt' m1 where st: "step opt (\<lambda>m'. loss lp alpha m' answers) m = (opt', m1)"
    by (cases "step opt (\<lambda>m'. loss lp alpha m' answers) m")
  from Suc.prems have "fit_loop step lp answers alpha n opt' m1 (ls @ [l]) = Inr (m', ls')"
    by (simp add: and_then_def l st)
  from Suc.IH [OF this] show ?case by simp
qed

lemma shape_ok_lower_difficulty:
  "shape_ok m a \<Longrightarrow> shape_ok (snd (lower_difficulty lr f m)) a"
  by (cases m) (simp_all add: shape_ok_def)

lemma sigmoid_0: "sigmoid 0 = 1/2"
  by (simp add: sigmoid_def)

lemma fit_one_question:
  "fit lr_state lower_difficulty log_mass (ResponseModel [0] [1]) (matrix 1 [[1]]) 1 alpha_arg =
     Inr (ResponseModel [0] [99/100],
          [Some (- ln (sigmoid (- 1)) + (case alpha_arg of None \<Rightarrow> 1 | Some a \<Rightarrow> a))])"
proof -
  let ?a = "matrix 1 [[1]]"
  have "shape_ok (ResponseModel [0] [1]) ?a" "0 < nrows ?a" "0 < ncols ?a"
    by (simp_all add: shape_ok_def matrix_def)
  from loss_matching [OF this, of log_mass]
  have "loss log_mass alpha (ResponseModel [0] [1]) ?a = Inr (Some (- ln (sigmoid (- 1)) + alpha))"
    for alpha
    by (auto simp add: forward_ResponseModel matrix_def log_mass_def)
  then show ?thesis
    by (simp add: fit_def and_then_def lr_state_def split: option.splits)
qed

lemma loss_error_iff:
  assumes "consistent m"
  shows "(loss lp alpha m answers = Inl e) =
           (e = ShapeMismatch \<and> (mismatch (length (skill m)) (nrows answers)
                                  \<or> mismatch (length (difficulty m)) (ncols answers)))"
proof -
  obtain P where P: "forward m = Inr P" "nrows P = length (skill m)"
      "ncols P = length (difficulty m)"
    using forward_shape [OF assms] by blast
  have "(loss lp alpha m answers = Inl e) = (bop lp P answers = Inl e)"
    by (cases "bop lp P answers") (simp_all add: loss_def and_then_def P(1) log_prob_def)
  then show ?thesis by (simp add: bop_eq_Inl P(2,3))
qed

text \<open>
  C2. For a model that matches a matrix with at least one row and one column, and an
  optimizer step that keeps the parameter vectors matching, \<^verbatim>\<open>fit\<close> returns and records
  one loss per epoch; the loss of epoch \<open>k\<close> is, at the parameters the model has in that
  epoch, minus the mean over all cells of the log-likelihood of the answers plus
  \<open>alpha\<close> times the square of the mean difficulty.
\<close>

theorem fit_losses_are_objective:
  assumes "\<And>opt f m'. shape_ok m' answers \<Longrightarrow> shape_ok (snd (step opt f m')) answers"
    and "shape_ok m answers" "0 < nrows answers" "0 < ncols answers"
  shows "\<exists>m' ls. fit adam step lp m answers epochs (Some alpha) = Inr (m', ls)
           \<and> length ls = epochs
           \<and> (\<forall>k<epochs. \<exists>P.
                 forward (snd (state_after step (\<lambda>m'. loss lp alpha m' answers) k
                                (adam m (1/100), m))) = Inr P
                 \<and> ls ! k =
                     Some (- ((\<Sum>i<nrows answers. \<Sum>j<ncols answers.
                                  lp (cell P i j) (cell answers i j))
                              / real (nrows answers * ncols answers))
                           + alpha * (sum_list (difficulty
                                 (snd (state_after step (\<lambda>m'. loss lp alpha m' answers) k
                                        (adam m (1/100), m))))
                               / real (ncols answers)) ^ 2))"
proof -
  let ?obj = "\<lambda>m'. loss lp alpha m' answers"
  let ?at = "\<lambda>k. snd (state_after step ?obj k (adam m (1/100), m))"
  obtain ls where ls:
      "fit_loop step lp answers alpha epochs (adam m (1/100)) m [] = Inr (?at epochs, [] @ ls)"
      "length ls = epochs"
      "\<forall>k<epochs. loss lp alpha (?at k) answers = Inr (ls ! k)"
    using fit_loop_losses [where step = step and answers = answers and m = m and lp = lp
        and alpha = alpha and n = epochs and opt = "adam m (1/100)" and ls = "[]", OF assms]
    by blast
  have fit: "fit adam step lp m answers epochs (Some alpha) = Inr (?at epochs, ls)"
    using ls(1) by (simp add: fit_def)
  have "\<exists>P. forward (?at k) = Inr P
          \<and> ls ! k =
              Some (- ((\<Sum>i<nrows answers. \<Sum>j<ncols answers.
                           lp (cell P i j) (cell answers i j))
                       / real (nrows answers * ncols answers))
                    + alpha * (sum_list (difficulty (?at k)) / real (ncols answers)) ^ 2)"
    if "k < epochs" for k
  proof -
    have "shape_ok (?at k) answers"
      by (rule state_after_shape_ok) (simp_all add: assms)
    from loss_matching [OF this assms(3,4), of lp alpha] obtain P where
      "forward (?at k) = Inr P"
      "loss lp alpha (?at k) answers =
         Inr (Some (- ((\<Sum>i<nrows answers. \<Sum>j<ncols answers.
                           lp (cell P i j) (cell answers i j))
                       / real (nrows answers * ncols answers))
                    + alpha * (sum_list (difficulty (?at k)) / real (ncols answers)) ^ 2))"
      by blast
    with ls(3) that show ?thesis by auto
  qed
  with fit ls(2) show ?thesis by blast
qed

theorem fit_losses_are_objective_witness:
  "\<exists>m' ls. fit lr_state lower_difficulty log_mass (ResponseModel_init 1 1) (matrix 1 [[1]]) 2
              (Some 1) = Inr (m', ls)
      \<and> length ls = 2
      \<and> ls ! 0 = Some (- ln (1/2))
      \<and> ls ! 1 = Some (- ln (sigmoid (1/100)) + 1/10000)"
proof -
  let ?a = "matrix 1 [[1]]"
  let ?m = "ResponseModel [0] [0]"
  let ?at = "\<lambda>k. snd (state_after lower_difficulty (\<lambda>m'. loss log_mass 1 m' ?a) k
                        (lr_state ?m (1/100), ?m))"
  have ok: "shape_ok ?m ?a" "0 < nrows ?a" "0 < ncols ?a"
    by (simp_all add: shape_ok_def matrix_def)
  have at0: "?at 0 = ResponseModel [0] [0]" by simp
  have at1: "?at 1 = ResponseModel [0] [- (1/100)]" by (simp add: lr_state_def)
  obtain m' ls where fit: "fit lr_state lower_difficulty log_mass ?m ?a 2 (Some 1) = Inr (m', ls)"
      "length ls = 2"
    and each: "\<forall>k<2. \<exists>P. forward (?at k) = Inr P
        \<and> ls ! k = Some (- ((\<Sum>i<nrows ?a. \<Sum>j<ncols ?a. log_mass (cell P i j) (cell ?a i j))
                             / real (nrows ?a * ncols ?a))
                          + 1 * (sum_list (difficulty (?at k)) / real (ncols ?a)) ^ 2)"
    using fit_losses_are_objective
      [where answers = ?a and step = lower_difficulty and m = ?m and adam = lr_state
        and lp = log_mass and epochs = 2 and alpha = 1, OF shape_ok_lower_difficulty ok]
    by blast
  have "(0::nat) < 2" by simp
  from each [rule_format, OF this] have l0: "ls ! 0 = Some (- ln (1/2))"
    unfolding at0 by (auto simp add: forward_ResponseModel matrix_def log_mass_def sigmoid_0)
  have "(1::nat) < 2" by simp
  from each [rule_format, OF this] have l1: "ls ! 1 = Some (- ln (sigmoid (1/100)) + 1/10000)"
    unfolding at1
    by (auto simp add: forward_ResponseModel matrix_def log_mass_def power2_eq_square)
  from fit l0 l1 show ?thesis by (simp add: ResponseModel_init_def)
qed

text \<open>
  C3, as the code has it. The weight \<open>alpha\<close> is an argument of \<^verbatim>\<open>fit\<close> and an omitted
  \<open>alpha\<close> is 1.0. The learning rate is no argument: the optimizer is created with the
  constant 0.01, so \<^verbatim>\<open>fit\<close> depends on the optimizer's constructor only through its
  value at that learning rate. The epoch count is an argument: a \<^verbatim>\<open>fit\<close> that returns
  has recorded one loss per epoch.
\<close>

theorem fit_configuration:
  "fit adam step lp m answers epochs None = fit adam step lp m answers epochs (Some 1)
   \<and> (adam m (1/100) = adam' m (1/100) \<longrightarrow>
        fit adam step lp m answers epochs alpha_arg = fit adam' step lp m answers epochs alpha_arg)
   \<and> (fit adam step lp m answers epochs alpha_arg = Inr (m', ls) \<longrightarrow> length ls = epochs)"
proof (intro conjI impI)
  show "fit adam step lp m answers epochs None = fit adam step lp m answers epochs (Some 1)"
    by (simp add: fit_def)
  show "fit adam step lp m answers epochs alpha_arg = fit adam' step lp m answers epochs alpha_arg"
    if "adam m (1/100) = adam' m (1/100)"
    using that by (simp add: fit_def)
  show "length ls = epochs" if "fit adam step lp m answers epochs alpha_arg = Inr (m', ls)"
    using fit_loop_length [of step lp answers _ epochs _ m "[]" m' ls] that
    by (simp add: fit_def Let_def)
qed

theorem fit_configuration_witness:
  "fit lr_state lower_difficulty log_mass (ResponseModel [0] [1]) (matrix 1 [[1]]) 1 None
     = fit capped_lr_state lower_difficulty log_mass (ResponseModel [0] [1]) (matrix 1 [[1]]) 1
         (Some 1)
   \<and> fit lr_state lower_difficulty log_mass (ResponseModel [0] [1]) (matrix 1 [[1]]) 1 (Some 1)
     = Inr (ResponseModel [0] [99/100], [Some (- ln (sigmoid (- 1)) + 1)])
   \<and> length [Some (- ln (sigmoid (- 1)) + 1)] = (1::nat)"
  using fit_configuration [of lr_state lower_difficulty log_mass "ResponseModel [0] [1]"
      "matrix 1 [[1]]" 1 capped_lr_state "Some 1" "ResponseModel [0] [99/100]"
      "[Some (- ln (sigmoid (- 1)) + 1)]"]
    fit_one_question [of "Some 1"]
  by (simp add: lr_state_def capped_lr_state_def)

text \<open>
  With one student of skill 0, one question of difficulty 1 and one epoch, the loss
  recorded for an omitted \<open>alpha\<close> carries the penalty 1, not the penalty 1/100 that
  \<open>alpha = 1e-2\<close> gives: the default of \<open>alpha\<close> is not 1e-2.
\<close>

theorem fit_default_alpha_counterexample:
  "fit lr_state lower_difficulty log_mass (ResponseModel [0] [1]) (matrix 1 [[1]]) 1 None
     = Inr (ResponseModel [0] [99/100], [Some (- ln (sigmoid (- 1)) + 1)])
   \<and> fit lr_state lower_difficulty log_mass (ResponseModel [0] [1]) (matrix 1 [[1]]) 1
         (Some (1/100))
     = Inr (ResponseModel [0] [99/100], [Some (- ln (sigmoid (- 1)) + 1/100)])
   \<and> fit lr_state lower_difficulty log_mass (ResponseModel [0] [1]) (matrix 1 [[1]]) 1 None
     \<noteq> fit lr_state lower_difficulty log_mass (ResponseModel [0] [1]) (matrix 1 [[1]]) 1
         (Some (1/100))"
  using fit_one_question [of None] fit_one_question [of "Some (1/100)"] by simp

lemma loss_compatible:
  assumes "compatible m answers"
  shows "\<exists>l. loss lp alpha m answers = Inr l"
proof (cases "loss lp alpha m answers")
  case (Inl e)
  with assms show ?thesis by (simp add: compatible_def loss_error_iff)
next
  case (Inr l)
  then show ?thesis by simp
qed

lemma fit_loop_returns:
  assumes pres: "\<And>opt f m. compatible m answers \<Longrightarrow> compatible (snd (step opt f m)) answers"
    and "compatible m answers"
  shows "\<exists>m' ls'. fit_loop step lp answers alpha n opt m ls = Inr (m', ls')
           \<and> length ls' = length ls + n"
  using assms(2)
proof (induction n arbitrary: opt m ls)
  case 0
  then show ?case by simp
next
  case (Suc n)
  let ?obj = "\<lambda>m'. loss lp alpha m' answers"
  obtain l where l: "loss lp alpha m answers = Inr l"
    using loss_compatible [OF Suc.prems] by blast
  obtain opt' m1 where st: "step opt ?obj m = (opt', m1)" by (cases "step opt ?obj m")
  have "compatible m1 answers" using pres [OF Suc.prems, of opt ?obj] st by simp
  from Suc.IH [OF this, of opt' "ls @ [l]"] obtain m' ls' where
    "fit_loop step lp answers alpha n opt' m1 (ls @ [l]) = Inr (m', ls')"
    "length ls' = length (ls @ [l]) + n"
    by blast
  then show ?case by (simp add: and_then_def l st)
qed

lemma compatible_lower_difficulty:
  "compatible m a \<Longrightarrow> compatible (snd (lower_difficulty lr f m)) a"
  by (cases m) (simp_all add: compatible_def)

lemma binary_two_rows: "binary (matrix 1 [[1], [0]])"
  by (auto simp add: binary_def matrix_def less_Suc_eq numeral_2_eq_2)

lemma binary_three: "binary (matrix 3 [[1, 0, 1], [0, 0, 1], [1, 1, 1]])"
  by (auto simp add: binary_def matrix_def less_Suc_eq numeral_3_eq_3)


text \<open>
  C9, as the code has it. \<^verbatim>\<open>fit\<close> makes no shape check of its own. For a consistent
  model and a binary matrix: when the number of skills and the number of rows, or the
  number of difficulties and the number of columns, differ and neither is 1, \<^verbatim>\<open>fit\<close>
  with at least one epoch fails with the shape error of the tensor library, before any
  optimizer step. In every other case, a length that differs from the matrix by being 1
  or by meeting a 1 included, the first epoch proceeds: its loss is evaluated and
  recorded and the optimizer step is taken. With an optimizer step that keeps the model
  compatible, \<^verbatim>\<open>fit\<close> fails exactly in the first case and otherwise returns one loss
  per epoch.
\<close>

theorem fit_shape_check:
  assumes "consistent m" and "binary answers"
  shows "(mismatch (length (skill m)) (nrows answers)
            \<or> mismatch (length (difficulty m)) (ncols answers) \<longrightarrow>
          fit adam step lp m answers (Suc n) alpha_arg = Inl ShapeMismatch)
       \<and> (\<not> mismatch (length (skill m)) (nrows answers)
            \<and> \<not> mismatch (length (difficulty m)) (ncols answers) \<longrightarrow>
          (\<exists>l opt' m1.
             loss lp (case alpha_arg of None \<Rightarrow> 1 | Some a \<Rightarrow> a) m answers = Inr l
             \<and> step (adam m (1/100))
                  (\<lambda>m'. loss lp (case alpha_arg of None \<Rightarrow> 1 | Some a \<Rightarrow> a) m' answers) m
                 = (opt', m1)
             \<and> fit adam step lp m answers (Suc n) alpha_arg
                 = fit_loop step lp answers (case alpha_arg of None \<Rightarrow> 1 | Some a \<Rightarrow> a)
                     n opt' m1 [l]))
       \<and> ((\<forall>opt f m'. compatible m' answers \<longrightarrow> compatible (snd (step opt f m')) answers) \<longrightarrow>
          (\<exists>e. fit adam step lp m answers (Suc n) alpha_arg = Inl e)
            = (mismatch (length (skill m)) (nrows answers)
               \<or> mismatch (length (difficulty m)) (ncols answers)))
       \<and> ((\<forall>opt f m'. compatible m' answers \<longrightarrow> compatible (snd (step opt f m')) answers)
            \<and> \<not> mismatch (length (skill m)) (nrows answers)
            \<and> \<not> mismatch (length (difficulty m)) (ncols answers) \<longrightarrow>
          (\<exists>m' ls. fit adam step lp m answers epochs alpha_arg = Inr (m', ls)
                   \<and> length ls = epochs))"
proof -
  let ?alpha = "case alpha_arg of None \<Rightarrow> 1 | Some a \<Rightarrow> a"
  let ?obj = "\<lambda>m'. loss lp ?alpha m' answers"
  let ?bad = "mismatch (length (skill m)) (nrows answers)
               \<or> mismatch (length (difficulty m)) (ncols answers)"
  have fit_alpha: "fit adam step lp m answers k alpha_arg
      = fit_loop step lp answers ?alpha k (adam m (1/100)) m []" for k
    by (cases alpha_arg) (simp_all add: fit_def)
  have fails: "fit adam step lp m answers (Suc n) alpha_arg = Inl ShapeMismatch" if ?bad
  proof -
    from that have "loss lp ?alpha m answers = Inl ShapeMismatch"
      by (simp add: loss_error_iff [OF assms(1)])
    then show ?thesis by (simp add: fit_alpha and_then_def)
  qed
  have good: "compatible m answers" if "\<not> ?bad"
    using that assms(1) by (simp add: compatible_def)
  have first: "\<exists>l opt' m1. loss lp ?alpha m answers = Inr l
        \<and> step (adam m (1/100)) ?obj m = (opt', m1)
        \<and> fit adam step lp m answers (Suc n) alpha_arg
            = fit_loop step lp answers ?alpha n opt' m1 [l]" if nb: "\<not> ?bad"
  proof -
    obtain l where l: "loss lp ?alpha m answers = Inr l"
      using loss_compatible [OF good [OF nb]] by blast
    obtain opt' m1 where st: "step (adam m (1/100)) ?obj m = (opt', m1)"
      by (cases "step (adam m (1/100)) ?obj m")
    have "fit adam step lp m answers (Suc n) alpha_arg
        = fit_loop step lp answers ?alpha n opt' m1 [l]"
      by (simp add: fit_alpha and_then_def l st)
    with l st show ?thesis by blast
  qed
  have returns: "\<exists>m' ls. fit adam step lp m answers k alpha_arg = Inr (m', ls) \<and> length ls = k"
    if "\<forall>opt f m'. compatible m' answers \<longrightarrow> compatible (snd (step opt f m')) answers"
      and "\<not> ?bad" for k
  proof -
    from that(1) have pres: "\<And>opt f m'. compatible m' answers
        \<Longrightarrow> compatible (snd (step opt f m')) answers"
      by blast
    from fit_loop_returns [of answers step m lp ?alpha k "adam m (1/100)" "[]",
        OF pres good [OF that(2)]]
    show ?thesis by (simp add: fit_alpha)
  qed
  have iff: "(\<exists>e. fit adam step lp m answers (Suc n) alpha_arg = Inl e) = ?bad"
    if "\<forall>opt f m'. compatible m' answers \<longrightarrow> compatible (snd (step opt f m')) answers"
  proof (cases ?bad)
    case True
    with fails show ?thesis by simp
  next
    case False
    from returns [OF that False, of "Suc n"] False show ?thesis by auto
  qed
  from fails first iff returns show ?thesis by blast
qed

theorem fit_shape_check_witness:
  "fit lr_state lower_difficulty log_mass (ResponseModel_init 2 1)
       (matrix 3 [[1, 0, 1], [0, 0, 1], [1, 1, 1]]) 1 None = Inl ShapeMismatch
   \<and> (\<exists>m' ls. fit lr_state lower_difficulty log_mass (ResponseModel_init 1 1)
                 (matrix 1 [[1], [0]]) 2 None = Inr (m', ls) \<and> length ls = 2)"
proof -
  have "fit lr_state lower_difficulty log_mass (ResponseModel_init 2 1)
       (matrix 3 [[1, 0, 1], [0, 0, 1], [1, 1, 1]]) (Suc 0) None = Inl ShapeMismatch"
    using fit_shape_check [where m = "ResponseModel_init 2 1" and lp = log_mass
        and answers = "matrix 3 [[1, 0, 1], [0, 0, 1], [1, 1, 1]]" and adam = lr_state
        and step = lower_difficulty and n = 0 and alpha_arg = None] binary_three
    by (simp add: ResponseModel_init_def matrix_def mismatch_def)
  moreover have "\<exists>m' ls. fit lr_state lower_difficulty log_mass (ResponseModel_init 1 1)
                 (matrix 1 [[1], [0]]) 2 None = Inr (m', ls) \<and> length ls = 2"
    using fit_shape_check [where m = "ResponseModel_init 1 1" and lp = log_mass
        and answers = "matrix 1 [[1], [0]]" and adam = lr_state
        and step = lower_difficulty and epochs = 2 and alpha_arg = None] binary_two_rows
      compatible_lower_difficulty
    by (simp add: ResponseModel_init_def matrix_def mismatch_def)
  ultimately show ?thesis by simp
qed

text \<open>
  A model built for one student and one question is fitted to a matrix with two rows:
  the lengths do not match and \<^verbatim>\<open>fit\<close> returns a model and a loss.
\<close>

theorem fit_shape_mismatch_counterexample:
  "length (skill (ResponseModel_init 1 1)) \<noteq> nrows (matrix 1 [[1], [0]])
   \<and> fit lr_state lower_difficulty log_mass (ResponseModel_init 1 1) (matrix 1 [[1], [0]]) 1
         (Some (1/100))
     = Inr (ResponseModel [0] [- (1/100)], [Some (- ln (1/2))])"
proof -
  let ?a = "matrix 1 [[1], [0]]"
  have "log_prob log_mass \<lparr>nrows = 1, ncols = 1, cell = (\<lambda>i j. 1/2)\<rparr> ?a
      = Inr \<lparr>nrows = 2, ncols = 1,
             cell = (\<lambda>i j. log_mass (1/2) (cell ?a i (pick 1 j)))\<rparr>"
    by (simp add: log_prob_def bop_def matrix_def broadcast_dim_def pick_def)
  then have "loss log_mass alpha (ResponseModel [0] [0]) ?a = Inr (Some (- ln (1/2)))" for alpha
    by (simp add: loss_def forward_ResponseModel and_then_def sigmoid_0 mean_t_def
        sum_axis1_def mean_v_def nan_add_def nan_map_def matrix_def log_mass_def
        numeral_2_eq_2)
  then show ?thesis
    by (simp add: fit_def and_then_def lr_state_def ResponseModel_init_def matrix_def)
qed



section \<open>Rounding to float32\<close>

lemma round_even_of_int [simp]: "round_even (of_int n) = n"
  by (simp add: round_even_def)



lemma round_even_le:
  assumes "y \<le> of_int k"
  shows "round_even y \<le> k"
proof -
  have f: "\<lfloor>y\<rfloor> \<le> k" using assms by (simp add: floor_le_iff)
  show ?thesis
  proof (cases "y = of_int k")
    case True
    then show ?thesis by simp
  next
    case False
    with assms have "y < of_int k" by simp
    then have "\<lfloor>y\<rfloor> < k" by (simp add: floor_less_iff)
    then show ?thesis by (auto simp add: round_even_def Let_def)
  qed
qed

lemma floor_log2:
  assumes "2 powi k \<le> \<bar>x\<bar>" "\<bar>x\<bar> < 2 powi (k + 1)"
  shows "\<lfloor>log 2 \<bar>x\<bar>\<rfloor> = k"
proof -
  have pos: "0 < \<bar>x\<bar>"
  proof -
    have "(0::real) < 2 powi k" by simp
    with assms(1) show ?thesis by linarith
  qed
  have p: "(2::real) powr of_int n = 2 powi n" for n
    by (simp add: powr_real_of_int')
  have "of_int k \<le> log 2 \<bar>x\<bar>" using assms(1) pos by (simp add: le_log_iff p)
  moreover have "log 2 \<bar>x\<bar> < of_int (k + 1)"
    using assms(2) pos by (simp add: log_less_iff p [of "k + 1", simplified])
  ultimately show ?thesis by (intro floor_unique) auto
qed

lemma ulp_normal:
  assumes "2 powi k \<le> \<bar>x\<bar>" "\<bar>x\<bar> < 2 powi (k + 1)" "- 126 \<le> k"
  shows "ulp x = 2 powi (k - 23)"
  using assms(3) by (simp add: ulp_def floor_log2 [OF assms(1,2)] max_def)

lemma rnd_normal:
  assumes "2 powi k \<le> \<bar>x\<bar>" "\<bar>x\<bar> < 2 powi (k + 1)" "- 126 \<le> k"
    and "u = 2 powi (k - 23)" "round_even (x / u) = q" "r = u * of_int q"
  shows "rnd x = (if 2 ^ 128 \<le> r then PInf else if r \<le> - (2 ^ 128) then MInf else Fin r)"
proof -
  have "x \<noteq> 0"
  proof
    assume "x = 0"
    moreover have "(0::real) < 2 powi k" by simp
    ultimately show False using assms(1) by linarith
  qed
  moreover have "ulp x = u" using ulp_normal [OF assms(1-3)] assms(4) by simp
  then have "ulp x * of_int (round_even (x / ulp x)) = r" using assms(5,6) by simp
  ultimately show ?thesis by (simp only: rnd_def Let_def if_False)
qed

lemma rnd_one: "rnd 1 = Fin 1"
  by (subst rnd_normal [where k = 0 and u = "1 / 2 ^ 23" and q = "2 ^ 23" and r = 1])
    (simp_all add: round_even_def)

lemma rnd_sum_rounds_down: "rnd (2 ^ 25 + 1) = Fin (2 ^ 25)"
  by (subst rnd_normal [where k = 25 and u = 4 and q = "2 ^ 23" and r = "2 ^ 25"])
    (simp_all add: round_even_def)


lemma rnd_zero [simp]: "rnd 0 = Fin 0"
  by (simp add: rnd_def)

lemma rnd_two: "rnd 2 = Fin 2"
  by (subst rnd_normal [where k = 1 and u = "1 / 2 ^ 22" and q = "2 ^ 23" and r = 2])
    (simp_all add: round_even_def)

lemma rnd_half: "rnd (1/2) = Fin (1/2)"
  by (subst rnd_normal [where k = "- 1" and u = "1 / 2 ^ 24" and q = "2 ^ 23" and r = "1/2"])
    (simp_all add: round_even_def)

lemma rnd_minus_one: "rnd (- 1) = Fin (- 1)"
  by (subst rnd_normal [where k = 0 and u = "1 / 2 ^ 23" and q = "- (2 ^ 23)" and r = "- 1"])
    (simp_all add: round_even_def)

lemma rnd_big: "rnd (2 ^ 25) = Fin (2 ^ 25)"
  by (subst rnd_normal [where k = 25 and u = 4 and q = "2 ^ 23" and r = "2 ^ 25"])
    (simp_all add: round_even_def)








lemma sigmoid_minus_one_bounds: "1/4 \<le> sigmoid (- 1)" "sigmoid (- 1) \<le> 3/8"
proof -
  have lo: "(2::real) \<le> exp 1" using exp_ge_add_one_self [of "1::real"] by simp
  have hi: "exp 1 \<le> (3::real)" by (rule exp_le)
  have pos: "0 < 1 + exp (1::real)" by (simp add: add_pos_pos)
  show "1/4 \<le> sigmoid (- 1)"
    using hi pos by (simp add: sigmoid_def field_simps)
  show "sigmoid (- 1) \<le> 3/8"
    using lo pos by (simp add: sigmoid_def field_simps)
qed

lemma sigmoid32_minus_one: "\<exists>r. sigmoid32 (Fin (- 1)) = Fin r \<and> r \<le> 3/8"
proof -
  let ?x = "sigmoid (- 1)"
  let ?u = "1 / 2 ^ 25 :: real"
  have pos: "0 \<le> ?x" using sigmoid_minus_one_bounds(1) by simp
  have q_hi: "round_even (?x / ?u) \<le> 3 * 2 ^ 22"
    using sigmoid_minus_one_bounds(2) by (intro round_even_le) simp
  have q_lo: "0 \<le> round_even (?x / ?u)"
  proof -
    have "0 \<le> \<lfloor>?x / ?u\<rfloor>" using pos by simp
    then show ?thesis by (auto simp add: round_even_def Let_def)
  qed
  let ?r = "?u * of_int (round_even (?x / ?u))"
  have r_hi: "?r \<le> 3/8"
  proof -
    have "of_int (round_even (?x / ?u)) \<le> (3 * 2 ^ 22 :: real)"
      using q_hi by (metis of_int_le_iff of_int_numeral of_int_mult of_int_power)
    then show ?thesis by simp
  qed
  have r_lo: "0 \<le> ?r" using q_lo by simp
  have "rnd ?x = (if 2 ^ 128 \<le> ?r then PInf else if ?r \<le> - (2 ^ 128) then MInf else Fin ?r)"
    using sigmoid_minus_one_bounds pos
    by (intro rnd_normal [where k = "- 2" and u = ?u and q = "round_even (?x / ?u)"]) simp_all
  with r_hi r_lo have "rnd ?x = Fin ?r" by simp
  then have "sigmoid32 (Fin (- 1)) = Fin ?r" by simp
  with r_hi show ?thesis by blast
qed



section \<open>The loss in float32\<close>


section \<open>Translation of skills and difficulties in float32\<close>

text \<open>
  C6, as the code has it. Adding the same constant \<open>C\<close> to every skill and to every
  difficulty leaves the entry \<open>(i, j)\<close> of the probability matrix of
  \<^verbatim>\<open>ResponseModel.forward\<close> unchanged whenever the float32 additions are exact, that is,
  every \<open>skill[i] + C\<close> and every \<open>difficulty[j] + C\<close> is itself a float32 number.
\<close>

theorem forward32_translation_exact_shift:
  assumes "\<forall>s\<in>set sk. add32 (Fin s) (Fin C) = Fin (s + C)"
    and "\<forall>d\<in>set df. add32 (Fin d) (Fin C) = Fin (d + C)"
    and "i < length sk" "j < length df"
  shows "forward32 (shift32 (Fin C) (map Fin sk)) (shift32 (Fin C) (map Fin df)) i j
           = forward32 (map Fin sk) (map Fin df) i j
       \<and> forward32 (map Fin sk) (map Fin df) i j = sigmoid32 (rnd (sk ! i - df ! j))"
proof -
  have s: "shift32 (Fin C) (map Fin sk) ! i = Fin (sk ! i + C)"
    using assms(1,3) by (simp add: shift32_def)
  have d: "shift32 (Fin C) (map Fin df) ! j = Fin (df ! j + C)"
    using assms(2,4) by (simp add: shift32_def)
  have "sub32 (Fin (sk ! i + C)) (Fin (df ! j + C)) = sub32 (Fin (sk ! i)) (Fin (df ! j))"
    by (simp add: sub32_def)
  moreover have "sub32 (Fin (sk ! i)) (Fin (df ! j)) = rnd (sk ! i - df ! j)"
    by (simp add: sub32_def)
  ultimately show ?thesis
    using assms(3,4) by (simp add: forward32_def s d)
qed

theorem forward32_translation_exact_shift_witness:
  "forward32 (shift32 (Fin 1) [Fin 0]) (shift32 (Fin 1) [Fin 1]) 0 0
     = forward32 [Fin 0] [Fin 1] 0 0
   \<and> forward32 [Fin 0] [Fin 1] 0 0 = sigmoid32 (Fin (- 1))"
  using forward32_translation_exact_shift [of "[0]" 1 "[1]" 0 0] rnd_one rnd_two rnd_minus_one
  by simp

text \<open>
  With skill 0, difficulty 1 and \<open>C = 2^25\<close> both sums round to \<open>2^25\<close>: the shifted
  entry is \<open>sigmoid(0) = 1/2\<close>, the entry before the shift is \<open>sigmoid(-1)\<close>, at most 3/8.
\<close>

theorem forward32_shift_counterexample:
  "forward32 (shift32 (Fin (2 ^ 25)) [Fin 0]) (shift32 (Fin (2 ^ 25)) [Fin 1]) 0 0 = Fin (1/2)
   \<and> forward32 [Fin 0] [Fin 1] 0 0 \<noteq> Fin (1/2)"
proof -
  have s0: "add32 (Fin 0) (Fin (2 ^ 25)) = Fin (2 ^ 25)"
    using rnd_big by simp
  have s1: "add32 (Fin 1) (Fin (2 ^ 25)) = Fin (2 ^ 25)"
    using rnd_sum_rounds_down by (simp add: add.commute)
  have d: "sub32 (Fin (2 ^ 25)) (Fin (2 ^ 25)) = Fin 0"
    by (simp add: sub32_def)
  have "sigmoid32 (Fin 0) = Fin (1/2)"
    using rnd_half by (simp add: sigmoid_0)
  then have "forward32 (shift32 (Fin (2 ^ 25)) [Fin 0]) (shift32 (Fin (2 ^ 25)) [Fin 1]) 0 0
      = Fin (1/2)"
    unfolding forward32_def shift32_def by (simp only: list.map nth_Cons_0 s0 s1 d)
  moreover have "sub32 (Fin 0) (Fin 1) = Fin (- 1)"
    using rnd_minus_one by (simp add: sub32_def)
  then have "forward32 [Fin 0] [Fin 1] 0 0 \<noteq> Fin (1/2)"
    using sigmoid32_minus_one unfolding forward32_def by (simp only: nth_Cons_0) auto
  ultimately show ?thesis by simp
qed

section \<open>The predicted cheater in float32\<close>

lemma le32_not_NaN: "le32 a b \<Longrightarrow> a \<noteq> NaN \<and> b \<noteq> NaN"
  by (cases a; cases b) simp_all










end
